theory Spec2Isabelle
  imports
    Main
    "HOL-Library.AList"
    "HOL-Library.Sublist"
    "HOL-Library.Char_ord"
    "HOL-Library.List_Lexorder"
begin

section \<open>The label space of the implant (class attributes of \<open>ImplantSVG\<close>)\<close>

text \<open>
  Python strings are modelled as character lists, Python integers as \<open>int\<close>, and a
  Python \<open>dict\<close> as an association list in insertion order with distinct keys:
  \<open>map_of\<close> reads a key, \<open>AList.update\<close> writes one (in place when the key exists, at the
  end otherwise), \<open>map fst\<close> is \<open>keys()\<close> and \<open>map snd\<close> is \<open>values()\<close>.
  \<open>None\<close> of the source is \<open>None\<close> of an option type.
\<close>

type_synonym dict = "(string \<times> string option) list"

text \<open>\<open>str(i)\<close> for an integer, as the f-string \<open>f"{k}{i}"\<close> formats it.\<close>

fun str_nat :: "nat \<Rightarrow> string" where
  "str_nat n =
     (if n < 10 then [''0123456789'' ! n]
      else str_nat (n div 10) @ [''0123456789'' ! (n mod 10)])"

declare str_nat.simps [simp del]

definition str_int :: "int \<Rightarrow> string" where
  "str_int i = (if i < 0 then CHR ''-'' # str_nat (nat (- i)) else str_nat (nat i))"

text \<open>\<open>labels\<close>: the available integer labels for each probe group (lines 16-23).\<close>

definition labels :: "(string \<times> int list) list" where
  "labels =
     [(''A'', [1, 2, 3]),
      (''B'', [1, 2, 3, 4]),
      (''C'', [1, 2, 3, 4]),
      (''D'', [1, 2, 3]),
      (''E'', [1, 2, 3, 4]),
      (''F'', [1, 2, 3])]"

text \<open>
  Line 25: \<open>list(f"{k}{i}" for k,v in labels.items() for i in v)\<close>, as a function of
  the group table so that it can be read on other tables as well.
\<close>

definition strings_of :: "(string \<times> int list) list \<Rightarrow> string list" where
  "strings_of groups = concat (map (\<lambda>(k, v). map (\<lambda>i. k @ str_int i) v) groups)"

definition strings :: "string list" where
  "strings = strings_of labels"

text \<open>The probe letters \<open>list('ABCDEF')\<close>.\<close>

definition probes :: "string list" where
  "probes = [''A'', ''B'', ''C'', ''D'', ''E'', ''F'']"

subsection \<open>Errors\<close>

text \<open>
  Every \<open>raise\<close> of the source is a \<open>ValueError\<close>; the argument records which of the
  three raise sites it is (the message of the source). A failed dictionary read is a
  \<open>KeyError\<close> carrying the key.
\<close>

datatype value_error =
    ProbeNotAF          \<comment> \<open>line 136: "'probe' must be one of A-F"\<close>
  | IndexNotInRange     \<comment> \<open>line 90: "index must be in range 1-..."\<close>
  | HoleNotLabel        \<comment> \<open>line 144: "'hole_index' must be 'A1','B2', etc., ..."\<close>

datatype error = ValueError value_error | KeyError string

subsection \<open>\<open>index_to_label\<close> (lines 84-91)\<close>

text \<open>
  \<open>index not in range(len(strings))\<close> is \<open>index < 0 \<or> len(strings) \<le> index\<close>; the list is
  a parameter here, \<open>index_to_label\<close> is the classmethod on \<open>ImplantSVG.strings\<close>.
\<close>

definition index_to_label_in :: "string list \<Rightarrow> int option \<Rightarrow> error + string option" where
  "index_to_label_in strs index =
     (case index of
        None \<Rightarrow> Inr None
      | Some i \<Rightarrow>
          if \<not> (0 \<le> i \<and> i < int (length strs)) then Inl (ValueError IndexNotInRange)
          else Inr (Some (strs ! nat i)))"

definition index_to_label :: "int option \<Rightarrow> error + string option" where
  "index_to_label index = index_to_label_in strings index"

section \<open>The assignment store (instance attributes of \<open>ImplantSVG\<close>)\<close>

record store =
  probe_memory :: dict    \<comment> \<open>assigned hole for each probe\<close>
  hole_memory :: dict     \<comment> \<open>current probe for each hole\<close>

text \<open>
  \<open>__init__\<close> (lines 30-44) when no targets file exists:
  \<open>dict(zip(list('ABCDEF'),[None]*6))\<close> and \<open>dict(zip(strings,[None]*len(strings)))\<close>.
\<close>

definition init_store :: store where
  "init_store =
     \<lparr>probe_memory = zip probes (replicate 6 None),
      hole_memory = zip strings (replicate (length strings) None)\<rparr>"

text \<open>The argument \<open>hole: None|int|str\<close> of \<open>set_probe_hole\<close>.\<close>

datatype hole = HNone | HInt int | HStr string

text \<open>
  \<open>str.lower()\<close>: the letters \<open>A\<close>-\<open>Z\<close> go to \<open>a\<close>-\<open>z\<close>, every other character of the
  model stays. (No character outside \<open>A\<close>-\<open>Z\<close> has \<open>n\<close>, \<open>o\<close> or \<open>e\<close> as its lowercase
  form, so the comparison with \<open>'none'\<close> on line 141 is decided exactly.)
\<close>

definition lower_char :: "char \<Rightarrow> char" where
  "lower_char c =
     (case map_of (zip ''ABCDEFGHIJKLMNOPQRSTUVWXYZ'' ''abcdefghijklmnopqrstuvwxyz'') c of
        None \<Rightarrow> c
      | Some d \<Rightarrow> d)"

definition lower :: "string \<Rightarrow> string" where
  "lower s = map lower_char s"

text \<open>Truth value of a \<open>str|None\<close>: \<open>None\<close> and the empty string are false.\<close>

definition truthy :: "string option \<Rightarrow> bool" where
  "truthy v = (case v of None \<Rightarrow> False | Some x \<Rightarrow> x \<noteq> [])"

text \<open>
  Lines 137-144 of \<open>set_probe_hole\<close>: the label the argument \<open>hole\<close> stands for, or the
  \<open>ValueError\<close> raised.
\<close>

definition hole_label :: "hole \<Rightarrow> error + string option" where
  "hole_label hole =
     (case hole of
        HInt i \<Rightarrow> index_to_label (Some i)
      | HNone \<Rightarrow> Inr None
      | HStr x \<Rightarrow>
          if x \<in> set strings then Inr (Some x)
          else if lower x = ''none'' then Inr None
          else Inl (ValueError HoleNotLabel))"

text \<open>
  \<open>set_probe_hole\<close> (lines 133-161). The result is the exception raised, if any, and the
  store as the call leaves it. \<open>displace\<close> is the loop of lines 156-158 over the keys
  of \<open>probe_memory\<close>, which calls \<open>set_probe_hole(other_probe, None)\<close>.
\<close>

function set_probe_hole :: "store \<Rightarrow> string \<Rightarrow> hole \<Rightarrow> error option \<times> store"
  and displace :: "store \<Rightarrow> string option \<Rightarrow> string list \<Rightarrow> error option \<times> store"
where
  "set_probe_hole s probe hole =
     (if probe \<notin> set probes then (Some (ValueError ProbeNotAF), s)
      else case hole_label hole of
        Inl e \<Rightarrow> (Some e, s)
      | Inr label \<Rightarrow>
          (case map_of (probe_memory s) probe of
             None \<Rightarrow> (Some (KeyError probe), s)
           | Some current_label \<Rightarrow>
               if current_label = label then (None, s)
               else
                 let s1 = (if truthy current_label
                           then s\<lparr>hole_memory :=
                                    AList.update (the current_label) None (hole_memory s)\<rparr>
                           else s)
                 in
                 (case (if truthy label \<and> label \<in> set (map snd (probe_memory s1))
                        then displace s1 label (map fst (probe_memory s1))
                        else (None, s1)) of
                    (Some e, s2) \<Rightarrow> (Some e, s2)
                  | (None, s2) \<Rightarrow>
                      let s3 = s2\<lparr>probe_memory := AList.update probe label (probe_memory s2)\<rparr>
                      in
                      (None,
                       if truthy label
                       then s3\<lparr>hole_memory :=
                                 AList.update (the label) (Some probe) (hole_memory s3)\<rparr>
                       else s3))))"
| "displace s label [] = (None, s)"
| "displace s label (other_probe # rest) =
     (case map_of (probe_memory s) other_probe of
        None \<Rightarrow> (Some (KeyError other_probe), s)
      | Some v \<Rightarrow>
          if v = label then
            (case set_probe_hole s other_probe HNone of
               (Some e, s') \<Rightarrow> (Some e, s')
             | (None, s') \<Rightarrow> displace s' label rest)
          else displace s label rest)"
  by pat_completeness auto
termination
  by (relation "measure (\<lambda>x. case x of
          Inl (s, probe, hole) \<Rightarrow>
            (case hole_label hole of
               Inr (Some l) \<Rightarrow> if l = [] then 0 else 2 + length (probe_memory s)
             | _ \<Rightarrow> 0)
        | Inr (s, label, keys) \<Rightarrow> 1 + length keys)")
     (auto simp: truthy_def hole_label_def split: option.splits)

declare set_probe_hole.simps [simp del]

section \<open>Persistence of the targets (\<open>targets_to_disk\<close>, \<open>targets_from_disk\<close>, \<open>load_targets\<close>)\<close>

text \<open>
  The targets file holds one JSON object from probe to label or \<open>null\<close>. The file system
  is modelled by the parsed content of that file, \<open>None\<close> when the file does not exist.
\<close>

type_synonym disk = "dict option"

text \<open>
  \<open>targets_to_disk\<close> (lines 52-60): \<open>json.dump(targets, f, indent=4, sort_keys=True)\<close> writes
  the entries ordered by key; reading the file back gives them in that order.
\<close>

definition targets_to_disk :: "dict \<Rightarrow> disk" where
  "targets_to_disk targets = Some (sort_key fst targets)"

text \<open>\<open>targets_from_disk\<close> (lines 62-69): the parsed file if it exists, else \<open>None\<close>.\<close>

definition targets_from_disk :: "disk \<Rightarrow> dict option" where
  "targets_from_disk d = (case d of Some content \<Rightarrow> Some content | None \<Rightarrow> None)"

text \<open>
  \<open>load_targets\<close> (lines 74-82), called on a constructed instance. The walrus test is false
  for \<open>None\<close> and for the empty dictionary. The \<open>else\<close> of line 81 belongs to the inner
  \<open>for\<close>, whose body has no \<open>break\<close>: it runs every time the inner loop ends.
\<close>

definition load_targets :: "store \<Rightarrow> disk \<Rightarrow> store" where
  "load_targets s d =
     (case targets_from_disk d of
        None \<Rightarrow> s
      | Some targets \<Rightarrow>
          if targets = [] then s
          else
            fold (\<lambda>label s1.
                    let s2 = fold (\<lambda>(k, v) s'.
                                     if v = Some label
                                     then s'\<lparr>hole_memory :=
                                              AList.update label (Some k) (hole_memory s')\<rparr>
                                     else s')
                                  (probe_memory s1) s1
                    in s2\<lparr>hole_memory := AList.update label None (hole_memory s2)\<rparr>)
                 strings
                 (s\<lparr>probe_memory := targets\<rparr>))"

text \<open>\<open>save\<close> (lines 71-72). The path is left out: there is one file.\<close>

definition save :: "store \<Rightarrow> disk" where
  "save s = targets_to_disk (probe_memory s)"

section \<open>Rendering (\<open>show_memory\<close>, \<open>show_targets\<close>)\<close>






section \<open>Properties of stores\<close>

text \<open>A caller making the calls of a list in order; an exception ends the sequence.\<close>

fun assign_all :: "store \<Rightarrow> (string \<times> hole) list \<Rightarrow> error option \<times> store" where
  "assign_all s [] = (None, s)"
| "assign_all s ((probe, hole) # calls) =
     (case set_probe_hole s probe hole of
        (Some e, s') \<Rightarrow> (Some e, s')
      | (None, s') \<Rightarrow> assign_all s' calls)"

text \<open>
  \<open>hole_memory\<close> derived anew from \<open>probe_memory\<close>: for each label in order, the first
  probe that holds it, if any.
\<close>

definition inverse_of :: "dict \<Rightarrow> dict" where
  "inverse_of pm =
     map (\<lambda>label. (label, map_option fst (find (\<lambda>(k, v). v = Some label) pm))) strings"

text \<open>
  The invariant of the store: the keys are the probes and the labels, every assigned
  label is a label of the implant, and the two dictionaries are inverse to each other.
\<close>

definition store_inv :: "store \<Rightarrow> bool" where
  "store_inv s \<longleftrightarrow>
     map fst (probe_memory s) = probes \<and>
     map fst (hole_memory s) = strings \<and>
     (\<forall>p L. map_of (probe_memory s) p = Some (Some L) \<longrightarrow> L \<in> set strings) \<and>
     (\<forall>p L. map_of (probe_memory s) p = Some (Some L) \<longleftrightarrow>
            map_of (hole_memory s) L = Some (Some p))"

text \<open>The store after lines 150-152 of \<open>set_probe_hole\<close>, \<open>cur\<close> being the current label.\<close>

definition vacate :: "store \<Rightarrow> string option \<Rightarrow> store" where
  "vacate s cur =
     (if truthy cur
      then s\<lparr>hole_memory := AList.update (the cur) None (hole_memory s)\<rparr>
      else s)"

text \<open>
  A drawing seen as text around placeholders: \<open>head\<close>, then for each entry \<open>(x, t)\<close> the
  element text \<open>x\<close> between \<open>>\<close> and \<open></tspan>\<close>, followed by the text \<open>t\<close>.
\<close>

definition drawing :: "string \<Rightarrow> (string \<times> string) list \<Rightarrow> string" where
  "drawing head segs = head @ concat (map (\<lambda>(x, t). ''>'' @ x @ ''</tspan>'' @ t) segs)"



section \<open>The store invariant\<close>

lemma strings_eq:
  "strings = [''A1'', ''A2'', ''A3'', ''B1'', ''B2'', ''B3'', ''B4'', ''C1'', ''C2'', ''C3'', ''C4'',
  ''D1'', ''D2'', ''D3'', ''E1'', ''E2'', ''E3'', ''E4'', ''F1'', ''F2'', ''F3'']"
  by (simp add: strings_def strings_of_def labels_def str_int_def str_nat.simps)

lemma strings_nonempty: "L \<in> set strings \<Longrightarrow> L \<noteq> []"
  by (auto simp: strings_eq)

lemma distinct_strings: "distinct strings"
  by (simp add: strings_eq)

lemma distinct_probes: "distinct probes"
  by (simp add: probes_def)

lemma set_probe_hole_None:
  "set_probe_hole s probe HNone =
     (if probe \<notin> set probes then (Some (ValueError ProbeNotAF), s)
      else case map_of (probe_memory s) probe of
        None \<Rightarrow> (Some (KeyError probe), s)
      | Some None \<Rightarrow> (None, s)
      | Some (Some cur) \<Rightarrow>
          (None, s\<lparr>probe_memory := AList.update probe None (probe_memory s),
                   hole_memory := (if cur = [] then hole_memory s
                                   else AList.update cur None (hole_memory s))\<rparr>))"
  by (subst set_probe_hole.simps)
     (auto simp: hole_label_def truthy_def Let_def split: option.splits)

lemma displace_no_holder:
  "\<forall>k\<in>set keys. map_of (probe_memory s) k \<noteq> None \<and> map_of (probe_memory s) k \<noteq> Some label
   \<Longrightarrow> displace s label keys = (None, s)"
  by (induction keys) (auto split: option.splits)

lemma displace_one_holder:
  assumes "distinct keys" "set keys \<subseteq> set probes" "q \<in> set keys"
    and "\<forall>k\<in>set keys. map_of (probe_memory s) k \<noteq> None"
    and "map_of (probe_memory s) q = Some (Some L)" "L \<noteq> []"
    and "\<forall>k\<in>set keys. k \<noteq> q \<longrightarrow> map_of (probe_memory s) k \<noteq> Some (Some L)"
  shows "displace s (Some L) keys =
     (None, s\<lparr>probe_memory := AList.update q None (probe_memory s),
              hole_memory := AList.update L None (hole_memory s)\<rparr>)"
  using assms
proof (induction keys)
  case Nil
  then show ?case by simp
next
  case (Cons k keys)
  show ?case
  proof (cases "k = q")
    case True
    let ?s' = "s\<lparr>probe_memory := AList.update q None (probe_memory s),
              hole_memory := AList.update L None (hole_memory s)\<rparr>"
    have sp: "set_probe_hole s q HNone = (None, ?s')"
      using Cons.prems True by (simp add: set_probe_hole_None)
    have "displace ?s' (Some L) keys = (None, ?s')"
      using Cons.prems True
      by (intro displace_no_holder) (auto simp: update_conv')
    then show ?thesis using Cons.prems True sp by simp
  next
    case False
    then have "map_of (probe_memory s) k \<noteq> Some (Some L)" using Cons.prems by auto
    moreover obtain v where "map_of (probe_memory s) k = Some v" using Cons.prems by auto
    ultimately have "displace s (Some L) (k # keys) = displace s (Some L) keys" by simp
    then show ?thesis using Cons False by auto
  qed
qed


lemma hole_label_valid: "hole_label hole = Inr (Some L) \<Longrightarrow> L \<in> set strings"
  by (auto simp: hole_label_def index_to_label_def index_to_label_in_def
           split: hole.splits if_splits)

lemma update_keys_present:
  "k \<in> set (map fst al) \<Longrightarrow> map fst (AList.update k v al) = map fst al"
  by (simp add: update_keys)

lemma inv_keys_dom:
  "store_inv s \<Longrightarrow> map_of (probe_memory s) p \<noteq> None \<longleftrightarrow> p \<in> set probes"
  by (metis map_of_eq_None_iff set_map store_inv_def)

lemma inv_values_iff:
  "store_inv s \<Longrightarrow>
   Some L \<in> set (map snd (probe_memory s)) \<longleftrightarrow> (\<exists>q. map_of (probe_memory s) q = Some (Some L))"
proof -
  assume "store_inv s"
  then have d: "distinct (map fst (probe_memory s))"
    by (simp add: store_inv_def distinct_probes)
  show ?thesis
  proof
    assume "Some L \<in> set (map snd (probe_memory s))"
    then obtain q where "(q, Some L) \<in> set (probe_memory s)" by auto
    then show "\<exists>q. map_of (probe_memory s) q = Some (Some L)"
      using d by (auto intro: exI[of _ q])
  next
    assume "\<exists>q. map_of (probe_memory s) q = Some (Some L)"
    then obtain q where "map_of (probe_memory s) q = Some (Some L)" by blast
    then have "(q, Some L) \<in> set (probe_memory s)" by (rule map_of_SomeD)
    then show "Some L \<in> set (map snd (probe_memory s))" by force
  qed
qed

lemma set_probe_hole_free:
  assumes inv: "store_inv s" and p: "probe \<in> set probes"
    and h: "hole_label hole = Inr label"
    and cur: "map_of (probe_memory s) probe = Some cur" "cur \<noteq> label"
    and free: "\<forall>L. label = Some L \<longrightarrow> (\<forall>q. map_of (probe_memory s) q \<noteq> Some (Some L))"
  shows "set_probe_hole s probe hole =
     (None, s\<lparr>probe_memory := AList.update probe label (probe_memory s),
              hole_memory :=
                (case label of None \<Rightarrow> hole_memory (vacate s cur)
                 | Some L \<Rightarrow> AList.update L (Some probe) (hole_memory (vacate s cur)))\<rparr>)"
proof -
  have nv: "\<not> (truthy label \<and> label \<in> set (map snd (probe_memory (vacate s cur))))"
    using free inv_values_iff[OF inv] by (cases label) (auto simp: truthy_def vacate_def)
  have tl: "truthy label \<longleftrightarrow> label \<noteq> None"
    using h strings_nonempty
    by (cases label) (auto simp: truthy_def dest!: hole_label_valid)
  show ?thesis
    using p h cur nv tl
    by (subst set_probe_hole.simps)
       (auto simp: Let_def vacate_def split: option.splits)
qed


lemma inv_unique_holder:
  "store_inv s \<Longrightarrow> map_of (probe_memory s) p = Some (Some L) \<Longrightarrow>
   map_of (probe_memory s) q = Some (Some L) \<Longrightarrow> p = q"
  by (metis option.inject store_inv_def)

lemma vacate_probe_memory [simp]: "probe_memory (vacate s cur) = probe_memory s"
  by (simp add: vacate_def)

lemma set_probe_hole_displacing:
  assumes inv: "store_inv s" and p: "probe \<in> set probes"
    and h: "hole_label hole = Inr (Some L)"
    and cur: "map_of (probe_memory s) probe = Some cur"
    and holder: "map_of (probe_memory s) q = Some (Some L)" "q \<noteq> probe"
  shows "set_probe_hole s probe hole =
     (None, s\<lparr>probe_memory := AList.update probe (Some L) (AList.update q None (probe_memory s)),
              hole_memory :=
                AList.update L (Some probe) (AList.update L None (hole_memory (vacate s cur)))\<rparr>)"
proof -
  have L: "L \<in> set strings" "L \<noteq> []"
    using h hole_label_valid strings_nonempty by auto
  have ne: "cur \<noteq> Some L"
    using inv cur holder inv_unique_holder by blast
  have q: "q \<in> set probes"
    using inv_keys_dom[OF inv, of q] holder by simp
  have vals: "Some L \<in> set (map snd (probe_memory s))"
    using inv_values_iff[OF inv] holder by blast
  have dom: "\<forall>k\<in>set probes. map_of (probe_memory (vacate s cur)) k \<noteq> None"
    using inv_keys_dom[OF inv] by simp
  have uniq: "\<forall>k\<in>set probes. k \<noteq> q \<longrightarrow> map_of (probe_memory (vacate s cur)) k \<noteq> Some (Some L)"
    using inv_unique_holder[OF inv _ holder(1)] by auto
  have keys: "map fst (probe_memory s) = probes"
    using inv by (simp add: store_inv_def)
  have d: "displace (vacate s cur) (Some L) probes =
     (None, (vacate s cur)\<lparr>probe_memory := AList.update q None (probe_memory (vacate s cur)),
              hole_memory := AList.update L None (hole_memory (vacate s cur))\<rparr>)"
    using displace_one_holder[OF distinct_probes subset_refl q dom _ L(2) uniq] holder
    by simp
  have tl: "truthy (Some L)"
    using L by (simp add: truthy_def)
  show ?thesis
    using p h cur ne vals tl d keys
    by (subst set_probe_hole.simps)
       (simp add: Let_def vacate_def[symmetric])
qed

lemma inv_vacate:
  assumes inv: "store_inv s" and cur: "map_of (probe_memory s) probe = Some cur"
  shows "map fst (hole_memory (vacate s cur)) = strings"
    and "map_of (hole_memory (vacate s cur)) =
           (case cur of None \<Rightarrow> map_of (hole_memory s)
            | Some c \<Rightarrow> (map_of (hole_memory s))(c \<mapsto> None))"
proof -
  have "c \<in> set strings \<and> c \<noteq> []" if "cur = Some c" for c
    using inv cur that strings_nonempty by (auto simp: store_inv_def)
  then show "map fst (hole_memory (vacate s cur)) = strings"
    and "map_of (hole_memory (vacate s cur)) =
           (case cur of None \<Rightarrow> map_of (hole_memory s)
            | Some c \<Rightarrow> (map_of (hole_memory s))(c \<mapsto> None))"
    using inv
    by (auto simp: vacate_def truthy_def store_inv_def update_keys update_conv'
             split: option.splits)
qed

lemma consistent_assign_map:
  fixes PM :: "'p \<rightharpoonup> 'l option" and HM :: "'l \<rightharpoonup> 'p option"
  assumes c: "\<forall>p L. PM p = Some (Some L) \<longleftrightarrow> HM L = Some (Some p)"
    and cur: "PM probe = Some cur"
    and free: "\<forall>L. label = Some L \<longrightarrow> (\<forall>q. PM q \<noteq> Some (Some L))"
  shows "(PM(probe \<mapsto> label)) p = Some (Some L) \<longleftrightarrow>
         (case label of
            None \<Rightarrow> (case cur of None \<Rightarrow> HM | Some c \<Rightarrow> HM(c \<mapsto> None))
          | Some L' \<Rightarrow> (case cur of None \<Rightarrow> HM | Some c \<Rightarrow> HM(c \<mapsto> None))(L' \<mapsto> Some probe)) L
           = Some (Some p)"
proof -
  have c1: "\<And>p L. PM p = Some (Some L) \<Longrightarrow> HM L = Some (Some p)" using c by blast
  have c2: "\<And>p L. HM L = Some (Some p) \<Longrightarrow> PM p = Some (Some L)" using c by blast
  show ?thesis
  proof (cases "p = probe")
    case True
    show ?thesis
    proof (cases "label = Some L")
      case True
      with \<open>p = probe\<close> show ?thesis by simp
    next
      case False
      have "HM L \<noteq> Some (Some probe) \<or> cur = Some L"
        using c2 cur by fastforce
      with False \<open>p = probe\<close> show ?thesis
        by (auto split: option.splits)
    qed
  next
    case False
    have a: "label = Some L \<Longrightarrow> PM p \<noteq> Some (Some L)" using free by blast
    have b: "PM p \<noteq> Some (Some L)" if "cur = Some L"
    proof
      assume "PM p = Some (Some L)"
      then have "HM L = Some (Some p)" by (rule c1)
      moreover have "HM L = Some (Some probe)" using cur that c1 by simp
      ultimately show False using False by simp
    qed
    from False a b show ?thesis
      using c by (auto split: option.splits)
  qed
qed


lemma store_inv_assign:
  assumes inv: "store_inv s"
    and cur: "map_of (probe_memory s) probe = Some cur"
    and free: "\<forall>L. label = Some L \<longrightarrow>
                 L \<in> set strings \<and> (\<forall>q. map_of (probe_memory s) q \<noteq> Some (Some L))"
    and keys: "map fst (probe_memory s') = probes" "map fst (hole_memory s') = strings"
    and pm: "map_of (probe_memory s') = (map_of (probe_memory s))(probe \<mapsto> label)"
    and hm: "map_of (hole_memory s') =
       (case label of
          None \<Rightarrow> (case cur of None \<Rightarrow> map_of (hole_memory s)
                    | Some c \<Rightarrow> (map_of (hole_memory s))(c \<mapsto> None))
        | Some L' \<Rightarrow> (case cur of None \<Rightarrow> map_of (hole_memory s)
                      | Some c \<Rightarrow> (map_of (hole_memory s))(c \<mapsto> None))(L' \<mapsto> Some probe))"
  shows "store_inv s'"
proof -
  have c: "\<forall>p L. map_of (probe_memory s) p = Some (Some L) \<longleftrightarrow>
            map_of (hole_memory s) L = Some (Some p)"
    using inv by (simp add: store_inv_def)
  have f: "\<forall>L. label = Some L \<longrightarrow> (\<forall>q. map_of (probe_memory s) q \<noteq> Some (Some L))"
    using free by blast
  have v: "\<And>p L. map_of (probe_memory s) p = Some (Some L) \<Longrightarrow> L \<in> set strings"
    using inv by (auto simp: store_inv_def)
  have valid: "\<forall>p L. map_of (probe_memory s') p = Some (Some L) \<longrightarrow> L \<in> set strings"
    using v free by (auto simp: pm split: if_splits)
  have cons: "\<forall>p L. map_of (probe_memory s') p = Some (Some L) \<longleftrightarrow>
            map_of (hole_memory s') L = Some (Some p)"
    unfolding pm hm using consistent_assign_map[OF c cur f] by blast
  show ?thesis
    unfolding store_inv_def using keys valid cons by blast
qed

lemma inv_after_free:
  assumes inv: "store_inv s" and p: "probe \<in> set probes"
    and cur: "map_of (probe_memory s) probe = Some cur"
    and free: "\<forall>L. label = Some L \<longrightarrow>
                 L \<in> set strings \<and> (\<forall>q. map_of (probe_memory s) q \<noteq> Some (Some L))"
  shows "store_inv (s\<lparr>probe_memory := AList.update probe label (probe_memory s),
              hole_memory :=
                (case label of None \<Rightarrow> hole_memory (vacate s cur)
                 | Some L \<Rightarrow> AList.update L (Some probe) (hole_memory (vacate s cur)))\<rparr>)"
proof (rule store_inv_assign[OF inv cur free])
  have k: "map fst (probe_memory s) = probes"
    using inv by (simp_all add: store_inv_def)
  note vac = inv_vacate[OF inv cur]
  let ?s' = "s\<lparr>probe_memory := AList.update probe label (probe_memory s),
              hole_memory :=
                (case label of None \<Rightarrow> hole_memory (vacate s cur)
                 | Some L \<Rightarrow> AList.update L (Some probe) (hole_memory (vacate s cur)))\<rparr>"
  show "map fst (probe_memory ?s') = probes"
    using k p by (simp add: update_keys)
  show "map fst (hole_memory ?s') = strings"
    using vac(1) free by (cases label) (simp_all add: update_keys)
  show "map_of (probe_memory ?s') = (map_of (probe_memory s))(probe \<mapsto> label)"
    by (simp add: update_conv')
  show "map_of (hole_memory ?s') =
       (case label of
          None \<Rightarrow> (case cur of None \<Rightarrow> map_of (hole_memory s)
                    | Some c \<Rightarrow> (map_of (hole_memory s))(c \<mapsto> None))
        | Some L' \<Rightarrow> (case cur of None \<Rightarrow> map_of (hole_memory s)
                      | Some c \<Rightarrow> (map_of (hole_memory s))(c \<mapsto> None))(L' \<mapsto> Some probe))"
    using vac(2) by (cases label) (simp_all add: update_conv')
qed

lemma inv_after_displacing:
  assumes inv: "store_inv s" and p: "probe \<in> set probes"
    and L: "L \<in> set strings"
    and cur: "map_of (probe_memory s) probe = Some cur"
    and holder: "map_of (probe_memory s) q = Some (Some L)" "q \<noteq> probe"
  shows "store_inv (s\<lparr>probe_memory := AList.update probe (Some L) (AList.update q None (probe_memory s)),
              hole_memory :=
                AList.update L (Some probe) (AList.update L None (hole_memory (vacate s cur)))\<rparr>)"
proof -
  let ?m = "s\<lparr>probe_memory := AList.update q None (probe_memory s),
              hole_memory := AList.update L None (hole_memory s)\<rparr>"
  have q: "q \<in> set probes"
    using inv_keys_dom[OF inv, of q] holder by simp
  have Lne: "L \<noteq> []" using L strings_nonempty by simp
  have m: "store_inv ?m"
    using inv_after_free[OF inv q holder(1), of None] Lne
    by (simp add: vacate_def truthy_def)
  have curm: "map_of (probe_memory ?m) probe = Some cur"
    using cur holder by (simp add: update_conv')
  have ne: "cur \<noteq> Some L"
    using inv cur holder inv_unique_holder by blast
  have freem: "\<forall>L'. Some L = Some L' \<longrightarrow>
                 L' \<in> set strings \<and> (\<forall>q'. map_of (probe_memory ?m) q' \<noteq> Some (Some L'))"
    using L inv_unique_holder[OF inv _ holder(1)] by (auto simp: update_conv')
  have k: "map fst (probe_memory s) = probes"
    using inv by (simp_all add: store_inv_def)
  note vac = inv_vacate[OF inv cur]
  show ?thesis
  proof (rule store_inv_assign[OF m curm freem])
    let ?s' = "s\<lparr>probe_memory := AList.update probe (Some L) (AList.update q None (probe_memory s)),
              hole_memory :=
                AList.update L (Some probe) (AList.update L None (hole_memory (vacate s cur)))\<rparr>"
    show "map fst (probe_memory ?s') = probes"
      using k p q by (simp add: update_keys)
    show "map fst (hole_memory ?s') = strings"
      using vac(1) L by (simp add: update_keys)
    show "map_of (probe_memory ?s') = (map_of (probe_memory ?m))(probe \<mapsto> Some L)"
      by (simp add: update_conv')
    show "map_of (hole_memory ?s') =
       (case Some L of
          None \<Rightarrow> (case cur of None \<Rightarrow> map_of (hole_memory ?m)
                    | Some c \<Rightarrow> (map_of (hole_memory ?m))(c \<mapsto> None))
        | Some L' \<Rightarrow> (case cur of None \<Rightarrow> map_of (hole_memory ?m)
                      | Some c \<Rightarrow> (map_of (hole_memory ?m))(c \<mapsto> None))(L' \<mapsto> Some probe))"
      using vac(2) ne by (cases cur) (auto simp: update_conv')
  qed
qed


lemma map_of_zip_replicate_None:
  "map_of (zip ks (replicate n None)) k \<noteq> Some (Some v)"
proof
  assume "map_of (zip ks (replicate n None)) k = Some (Some v)"
  then have "(k, Some v) \<in> set (zip ks (replicate n None))" by (rule map_of_SomeD)
  then have "Some v \<in> set (replicate n None)" by (rule set_zip_rightD)
  then show False by simp
qed

lemma store_inv_init: "store_inv init_store"
  by (simp add: store_inv_def init_store_def map_of_zip_replicate_None)
     (simp add: probes_def)

lemma set_probe_hole_inv:
  assumes inv: "store_inv s" and r: "set_probe_hole s probe hole = (e, s')"
  shows "store_inv s' \<and> (e \<noteq> None \<longrightarrow> s' = s) \<and>
         (e = None \<longleftrightarrow> probe \<in> set probes \<and> (\<exists>label. hole_label hole = Inr label))"
proof (cases "probe \<in> set probes")
  case False
  then show ?thesis using inv r by (subst (asm) set_probe_hole.simps) auto
next
  case p: True
  show ?thesis
  proof (cases "hole_label hole")
    case (Inl err)
    then show ?thesis using inv r p by (subst (asm) set_probe_hole.simps) auto
  next
    case (Inr label)
    obtain cur where cur: "map_of (probe_memory s) probe = Some cur"
      using inv_keys_dom[OF inv, of probe] p by auto
    show ?thesis
    proof (cases "cur = label")
      case True
      then show ?thesis using inv r p Inr cur by (subst (asm) set_probe_hole.simps) auto
    next
      case ne: False
      show ?thesis
      proof (cases "\<exists>L q. label = Some L \<and> map_of (probe_memory s) q = Some (Some L)")
        case True
        then obtain L q where lq: "label = Some L" "map_of (probe_memory s) q = Some (Some L)"
          by blast
        then have qp: "q \<noteq> probe" using cur ne by auto
        have L: "L \<in> set strings" using Inr lq hole_label_valid by simp
        show ?thesis
          using set_probe_hole_displacing[OF inv p Inr[unfolded lq(1)] cur lq(2) qp]
            inv_after_displacing[OF inv p L cur lq(2) qp] r p Inr
          by auto
      next
        case False
        then have free: "\<forall>L. label = Some L \<longrightarrow> (\<forall>q. map_of (probe_memory s) q \<noteq> Some (Some L))"
          by blast
        then have free': "\<forall>L. label = Some L \<longrightarrow>
                 L \<in> set strings \<and> (\<forall>q. map_of (probe_memory s) q \<noteq> Some (Some L))"
          using Inr hole_label_valid by blast
        show ?thesis
          using set_probe_hole_free[OF inv p Inr cur ne free]
            inv_after_free[OF inv p cur free'] r p Inr
          by auto
      qed
    qed
  qed
qed

lemma assign_all_inv:
  "store_inv s \<Longrightarrow> assign_all s calls = (e, s') \<Longrightarrow> store_inv s'"
proof (induction calls arbitrary: s)
  case Nil
  then show ?case by simp
next
  case (Cons c calls)
  obtain probe hole where c: "c = (probe, hole)" by (cases c)
  obtain e1 s1 where r: "set_probe_hole s probe hole = (e1, s1)"
    by (cases "set_probe_hole s probe hole")
  have s1: "store_inv s1" using set_probe_hole_inv[OF Cons.prems(1) r] by simp
  show ?case
  proof (cases e1)
    case None
    then show ?thesis using Cons.IH[OF s1] Cons.prems(2) c r by simp
  next
    case (Some a)
    then show ?thesis using s1 Cons.prems(2) c r by simp
  qed
qed


section \<open>Consistency of the two dictionaries\<close>

lemma alist_by_keys:
  "distinct (map fst al) \<Longrightarrow> al = map (\<lambda>k. (k, the (map_of al k))) (map fst al)"
proof (induction al)
  case Nil
  then show ?case by simp
next
  case (Cons a al)
  then have "map (\<lambda>k. (k, the (map_of (a # al) k))) (map fst al) =
             map (\<lambda>k. (k, the (map_of al k))) (map fst al)"
    by (intro map_cong) (auto simp: rev_image_eqI)
  with Cons show ?case by (cases a) simp
qed

lemma inverse_of_inv:
  assumes inv: "store_inv s"
  shows "hole_memory s = inverse_of (probe_memory s)"
proof -
  have kh: "map fst (hole_memory s) = strings" and kp: "map fst (probe_memory s) = probes"
    and c: "\<And>p L. map_of (probe_memory s) p = Some (Some L) \<longleftrightarrow>
            map_of (hole_memory s) L = Some (Some p)"
    using inv by (simp_all add: store_inv_def)
  have dp: "distinct (map fst (probe_memory s))" using kp distinct_probes by simp
  have "the (map_of (hole_memory s) L) =
          map_option fst (find (\<lambda>(k, v). v = Some L) (probe_memory s))"
    if L: "L \<in> set strings" for L
  proof (cases "find (\<lambda>(k, v). v = Some L) (probe_memory s)")
    case None
    then have no: "\<And>k. (k, Some L) \<notin> set (probe_memory s)"
      by (auto simp: find_None_iff)
    obtain v where v: "map_of (hole_memory s) L = Some v"
      using L kh by (metis map_of_eq_None_iff not_Some_eq set_map)
    have "v = None"
    proof (cases v)
      case (Some p)
      then have "map_of (probe_memory s) p = Some (Some L)" using v c by simp
      then show ?thesis using no map_of_SomeD by fastforce
    qed simp
    then show ?thesis using None v by simp
  next
    case (Some kv)
    then obtain i where "i < length (probe_memory s)" "probe_memory s ! i = kv"
      "case kv of (k, v) \<Rightarrow> v = Some L"
      by (auto simp: find_Some_iff)
    then have "kv \<in> set (probe_memory s)" "snd kv = Some L"
      by (auto simp: in_set_conv_nth split: prod.splits)
    then obtain k where k: "kv = (k, Some L)" "(k, Some L) \<in> set (probe_memory s)"
      by (metis prod.collapse)
    then have "map_of (probe_memory s) k = Some (Some L)"
      using dp by simp
    then have "map_of (hole_memory s) L = Some (Some k)" using c by simp
    then show ?thesis using Some k by simp
  qed
  then have "map (\<lambda>k. (k, the (map_of (hole_memory s) k))) strings = inverse_of (probe_memory s)"
    unfolding inverse_of_def by (intro map_cong) auto
  moreover have "hole_memory s = map (\<lambda>k. (k, the (map_of (hole_memory s) k))) strings"
    using alist_by_keys[of "hole_memory s"] kh distinct_strings by simp
  ultimately show ?thesis by simp
qed

text \<open>
  Claim C1. Starting from a fresh store with every probe unassigned, after any sequence
  of successful \<open>set_probe_hole\<close> calls \<open>hole_memory\<close> is exactly the inverse of
  \<open>probe_memory\<close> on the assigned labels (it equals the dictionary derived anew from
  \<open>probe_memory\<close>), and no label is held by two probes.
\<close>

theorem assign_keeps_consistency:
  assumes "assign_all init_store calls = (None, s)"
  shows "hole_memory s = inverse_of (probe_memory s) \<and>
         (\<forall>p L. (map_of (probe_memory s) p = Some (Some L)) =
                (map_of (hole_memory s) L = Some (Some p))) \<and>
         (\<forall>p q L. map_of (probe_memory s) p = Some (Some L) \<and>
                  map_of (probe_memory s) q = Some (Some L) \<longrightarrow> p = q)"
proof -
  have inv: "store_inv s"
    using assign_all_inv[OF store_inv_init assms] .
  show ?thesis
    using inverse_of_inv[OF inv] inv inv_unique_holder[OF inv]
    unfolding store_inv_def by blast
qed

theorem assign_keeps_consistency_witness:
  "assign_all init_store [(''A'', HStr ''B2''), (''C'', HInt 4), (''D'', HStr ''D1'')] =
     (None, snd (assign_all init_store [(''A'', HStr ''B2''), (''C'', HInt 4), (''D'', HStr ''D1'')])) \<and>
   hole_memory (snd (assign_all init_store [(''A'', HStr ''B2''), (''C'', HInt 4), (''D'', HStr ''D1'')])) =
     inverse_of (probe_memory
       (snd (assign_all init_store [(''A'', HStr ''B2''), (''C'', HInt 4), (''D'', HStr ''D1'')])))"
proof -
  have h: "assign_all init_store [(''A'', HStr ''B2''), (''C'', HInt 4), (''D'', HStr ''D1'')] =
     (None, snd (assign_all init_store [(''A'', HStr ''B2''), (''C'', HInt 4), (''D'', HStr ''D1'')]))"
    by code_simp
  show ?thesis
    using h assign_keeps_consistency [OF h] by blast
qed

section \<open>Reading back an assignment\<close>



section \<open>Displacement\<close>



section \<open>The label sequence and \<open>index_to_label\<close>\<close>

lemma strings_of_AB:
  "strings_of [(''A'', [1, 2, 3]), (''B'', [1, 2, 3, 4])] =
     [''A1'', ''A2'', ''A3'', ''B1'', ''B2'', ''B3'', ''B4'']"
  by (simp add: strings_of_def str_int_def str_nat.simps)

lemma length_strings: "length strings = 21"
  by (simp add: strings_eq)

text \<open>
  Claim C7, as stated, fails: the label at index 5 of the sequence for the groups
  \<open>{A:[1,2,3], B:[1,2,3,4]}\<close> is not \<open>B2\<close>.
\<close>

theorem label_at_5_counterexample:
  "index_to_label_in (strings_of [(''A'', [1, 2, 3]), (''B'', [1, 2, 3, 4])]) (Some 5)
     \<noteq> Inr (Some ''B2'')"
  by (simp add: strings_of_AB index_to_label_in_def)

text \<open>
  Claim C7, amended. For the groups \<open>{A:[1,2,3], B:[1,2,3,4]}\<close> the label sequence is
  \<open>A1, A2, A3, B1, B2, B3, B4\<close>; indices count from 0, as the docstring of
  \<open>index_to_label\<close> says: the label at index 4 is \<open>B2\<close>, the label at index 5 is \<open>B3\<close>,
  and 4 is the only index whose label is \<open>B2\<close>.
\<close>

theorem labels_zero_based:
  "strings_of [(''A'', [1, 2, 3]), (''B'', [1, 2, 3, 4])] =
     [''A1'', ''A2'', ''A3'', ''B1'', ''B2'', ''B3'', ''B4''] \<and>
   index_to_label_in (strings_of [(''A'', [1, 2, 3]), (''B'', [1, 2, 3, 4])]) (Some 4)
     = Inr (Some ''B2'') \<and>
   index_to_label_in (strings_of [(''A'', [1, 2, 3]), (''B'', [1, 2, 3, 4])]) (Some 5)
     = Inr (Some ''B3'') \<and>
   (index_to_label_in (strings_of [(''A'', [1, 2, 3]), (''B'', [1, 2, 3, 4])]) (Some i)
     = Inr (Some ''B2'')) = (i = 4)"
proof -
  have "i \<in> {0, 1, 2, 3, 4, 5, 6}" if "0 \<le> i" "i < 7"
    using that by auto
  then have "(index_to_label_in [''A1'', ''A2'', ''A3'', ''B1'', ''B2'', ''B3'', ''B4''] (Some i)
     = Inr (Some ''B2'')) = (i = 4)"
    by (auto simp: index_to_label_in_def)
  then show ?thesis
    by (simp add: strings_of_AB) (simp add: index_to_label_in_def)
qed

text \<open>
  Claim C8. For every integer outside \<open>[0, len(strings))\<close>, \<open>index_to_label\<close> raises the
  \<open>ValueError\<close> of line 90; \<open>set_probe_hole\<close> with such an index and a probe A-F raises
  it too and leaves the store as it was, in particular \<open>set_probe_hole('A', 99)\<close>.
\<close>

theorem index_out_of_range:
  assumes "i < 0 \<or> int (length strings) \<le> i"
  shows "index_to_label (Some i) = Inl (ValueError IndexNotInRange) \<and>
         (probe \<in> set probes \<longrightarrow>
            set_probe_hole s probe (HInt i) = (Some (ValueError IndexNotInRange), s)) \<and>
         set_probe_hole s ''A'' (HInt 99) = (Some (ValueError IndexNotInRange), s)"
proof -
  have a: "index_to_label (Some i) = Inl (ValueError IndexNotInRange)"
    using assms by (auto simp: index_to_label_def index_to_label_in_def)
  have b: "index_to_label (Some 99) = Inl (ValueError IndexNotInRange)"
    by (simp add: index_to_label_def index_to_label_in_def length_strings)
  have c: "set_probe_hole s probe (HInt i) = (Some (ValueError IndexNotInRange), s)"
    if "probe \<in> set probes"
    using that a by (subst set_probe_hole.simps) (simp add: hole_label_def)
  have d: "set_probe_hole s ''A'' (HInt 99) = (Some (ValueError IndexNotInRange), s)"
    using b by (subst set_probe_hole.simps) (simp add: hole_label_def probes_def)
  show ?thesis using a c d by blast
qed

theorem index_out_of_range_witness:
  "((99::int) < 0 \<or> int (length strings) \<le> 99) \<and>
   index_to_label (Some 99) = Inl (ValueError IndexNotInRange) \<and>
   set_probe_hole init_store ''B'' (HInt 99) = (Some (ValueError IndexNotInRange), init_store)"
proof -
  have h: "(99::int) < 0 \<or> int (length strings) \<le> 99"
    by (simp add: length_strings)
  have p: "''B'' \<in> set probes" by (simp add: probes_def)
  show ?thesis
    using h p index_out_of_range [OF h, of "''B''" init_store] by blast
qed

section \<open>Repeated and \<open>'none'\<close> assignments\<close>

lemma set_probe_hole_twice: "set_probe_hole s p h = (None, s') \<Longrightarrow> set_probe_hole s' p h = (None, s')"
proof -
  assume r: "set_probe_hole s p h = (None, s')"
  then obtain label where l: "p \<in> set probes" "hole_label h = Inr label"
    by (subst (asm) set_probe_hole.simps) (auto split: if_splits sum.splits)
  have "map_of (probe_memory s') p = Some label"
    using r l
    by (subst (asm) set_probe_hole.simps)
       (auto simp: Let_def update_conv' split: if_splits option.splits prod.splits)
  then show ?thesis using l
    by (subst set_probe_hole.simps) simp
qed

text \<open>
  Claim C9. When a probe A-F already holds the value \<open>v\<close> (\<open>None\<close> or a label of the
  implant), \<open>set_probe_hole\<close> with that value returns without changing the store; and a
  call that has succeeded, made again, leaves the store as the first call left it.
\<close>

theorem assign_same_value_noop:
  assumes "probe \<in> set probes" and "map_of (probe_memory s) probe = Some v"
  shows "(v = None \<longrightarrow> set_probe_hole s probe HNone = (None, s)) \<and>
         (\<forall>L\<in>set strings. v = Some L \<longrightarrow> set_probe_hole s probe (HStr L) = (None, s)) \<and>
         (\<forall>hole s'. set_probe_hole s probe hole = (None, s') \<longrightarrow>
                    set_probe_hole s' probe hole = (None, s'))"
proof -
  have "v = None \<longrightarrow> set_probe_hole s probe HNone = (None, s)"
    using assms by (subst set_probe_hole.simps) (simp add: hole_label_def)
  moreover have "\<forall>L\<in>set strings. v = Some L \<longrightarrow> set_probe_hole s probe (HStr L) = (None, s)"
    using assms by (subst set_probe_hole.simps) (simp add: hole_label_def)
  ultimately show ?thesis using set_probe_hole_twice by blast
qed

theorem assign_same_value_noop_witness:
  "''A'' \<in> set probes \<and>
   map_of (probe_memory (snd (set_probe_hole init_store ''A'' (HStr ''B2'')))) ''A''
     = Some (Some ''B2'') \<and>
   ''B2'' \<in> set strings \<and>
   set_probe_hole (snd (set_probe_hole init_store ''A'' (HStr ''B2''))) ''A'' (HStr ''B2'')
     = (None, snd (set_probe_hole init_store ''A'' (HStr ''B2'')))"
proof -
  have p: "''A'' \<in> set probes" by (simp add: probes_def)
  have m: "map_of (probe_memory (snd (set_probe_hole init_store ''A'' (HStr ''B2'')))) ''A''
     = Some (Some ''B2'')"
    by code_simp
  have l: "''B2'' \<in> set strings" by (simp add: strings_eq)
  show ?thesis
    using p m l assign_same_value_noop [OF p m] by blast
qed




section \<open>Saving and loading the targets\<close>

lemma fold_keeps_probe_memory:
  "(\<And>x t. probe_memory (f x t) = probe_memory t) \<Longrightarrow>
   probe_memory (fold f xs s) = probe_memory s"
  by (induction xs arbitrary: s) simp_all

lemma load_targets_probe_memory:
  assumes "targets \<noteq> []"
  shows "probe_memory (load_targets s (Some targets)) = targets"
proof -
  have inner: "probe_memory (fold (\<lambda>(k, v) s'.
                  if v = Some label
                  then s'\<lparr>hole_memory := AList.update label (Some k) (hole_memory s')\<rparr>
                  else s') kvs t) = probe_memory t"
    for label :: string and kvs :: dict and t :: store
    by (rule fold_keeps_probe_memory) (simp split: prod.splits)
  show ?thesis
    using assms
    by (simp add: load_targets_def targets_from_disk_def Let_def
          fold_keeps_probe_memory inner)
qed

text \<open>
  Claim C4 fails on the code. After \<open>set_probe_hole('A', 'A1')\<close> on a fresh store, saving
  \<open>probe_memory\<close> and loading the file into a fresh store gives the same \<open>probe_memory\<close>
  (probe A holds \<open>A1\<close>), but \<open>hole_memory['A1']\<close> is \<open>None\<close>: \<open>hole_memory\<close> is not the
  inverse of the loaded \<open>probe_memory\<close>.
\<close>

theorem load_after_save_hole_memory:
  "set_probe_hole init_store ''A'' (HStr ''A1'') =
     (None, snd (set_probe_hole init_store ''A'' (HStr ''A1''))) \<and>
   probe_memory (load_targets init_store (save (snd (set_probe_hole init_store ''A'' (HStr ''A1''))))) =
     probe_memory (snd (set_probe_hole init_store ''A'' (HStr ''A1''))) \<and>
   map_of (probe_memory
     (load_targets init_store (save (snd (set_probe_hole init_store ''A'' (HStr ''A1''))))))
     ''A'' = Some (Some ''A1'') \<and>
   map_of (hole_memory
     (load_targets init_store (save (snd (set_probe_hole init_store ''A'' (HStr ''A1''))))))
     ''A1'' = Some None \<and>
   hole_memory (load_targets init_store (save (snd (set_probe_hole init_store ''A'' (HStr ''A1'')))))
     \<noteq> inverse_of (probe_memory
           (load_targets init_store (save (snd (set_probe_hole init_store ''A'' (HStr ''A1''))))))"
  by code_simp

text \<open>
  Claim C6, as stated, fails: the record \<open>{"X": "Z9"}\<close>, whose key is no probe and whose
  label is no label of the implant, is loaded without any failure, and the store it
  leaves violates the invariant.
\<close>

theorem load_malformed_counterexample:
  "probe_memory (load_targets init_store (Some [(''X'', Some ''Z9'')])) = [(''X'', Some ''Z9'')] \<and>
   \<not> store_inv (load_targets init_store (Some [(''X'', Some ''Z9'')]))"
proof -
  have pm: "probe_memory (load_targets init_store (Some [(''X'', Some ''Z9'')])) =
              [(''X'', Some ''Z9'')]"
    by (rule load_targets_probe_memory) simp
  then have "map fst (probe_memory (load_targets init_store (Some [(''X'', Some ''Z9'')])))
               \<noteq> probes"
    by (simp add: probes_def)
  then show ?thesis using pm by (simp add: store_inv_def)
qed

text \<open>
  Claim C6, amended. \<open>load_targets\<close> checks nothing and never fails: a missing file or an
  empty record leaves the store as it is, and any other record becomes \<open>probe_memory\<close>
  as it is, whatever its keys and labels.
\<close>

theorem load_targets_unvalidated:
  "load_targets s None = s \<and>
   load_targets s (Some []) = s \<and>
   (targets \<noteq> [] \<longrightarrow> probe_memory (load_targets s (Some targets)) = targets)"
  using load_targets_probe_memory
  by (simp add: load_targets_def targets_from_disk_def)

theorem load_targets_unvalidated_witness:
  "[(''X'', Some ''Z9'')] \<noteq> [] \<and>
   probe_memory (load_targets init_store (Some [(''X'', Some ''Z9'')])) = [(''X'', Some ''Z9'')]"
  using load_targets_unvalidated [of init_store "[(''X'', Some ''Z9'')]"] by simp

section \<open>Rendering replaces the text of the placeholders only\<close>








lemma drawing_Cons:
  "drawing head ((x, t) # segs) = head @ ''>'' @ x @ ''</tspan>'' @ drawing t segs"
  by (simp add: drawing_def)

lemma drawing_append_head: "a @ drawing head segs = drawing (a @ head) segs"
  by (simp add: drawing_def)


































end
